theory Spec2Isabelle
  imports Main
begin

section \<open>Data model of the Athena result set\<close>

text \<open>
  The shapes consumed from \<^verbatim>\<open>@aws-sdk/client-athena\<close>. Every field the parser
  reads is optional in the TypeScript declarations; an omitted field is \<open>None\<close>.
  Fields the parser never reads live in the records' extension slot.
\<close>

record ColumnInfo =
  Name :: "string option"

record Datum =
  VarCharValue :: "string option"

record Row =
  Data :: "Datum list option"

record ResultSetMetadata =
  ColumnInfo :: "ColumnInfo list option"

record ResultSet =
  Rows :: "Row list option"
  ResultSetMetadata :: "ResultSetMetadata option"

section \<open>Decimal rendering of an index\<close>

text \<open>
  The template literal \<^verbatim>\<open>`col_${index}`\<close> renders the array index, a
  non-negative integer, in decimal without leading zeros.
\<close>

definition digit_char :: "nat \<Rightarrow> char" where
  "digit_char d = ''0123456789'' ! d"

fun string_of_index :: "nat \<Rightarrow> string" where
  "string_of_index n =
     (if n < 10 then [digit_char n]
      else string_of_index (n div 10) @ [digit_char (n mod 10)])"

declare string_of_index.simps [simp del]

section \<open>Parsed rows: a plain JavaScript object keyed by header\<close>

text \<open>
  \<^verbatim>\<open>ParsedRow = Record<string, string | null>\<close> is an object literal \<^verbatim>\<open>{}\<close>
  filled by \<^verbatim>\<open>obj[header] = value\<close>. The model keeps the own properties in
  creation order, and whether the prototype has been replaced by \<^verbatim>\<open>null\<close>.
  A cell value \<^verbatim>\<open>string | null\<close> is a \<open>string option\<close>, with \<open>None\<close> for
  \<^verbatim>\<open>null\<close>.
\<close>

record ParsedRow =
  props :: "(string \<times> string option) list"
  nullProto :: bool

definition emptyObject :: ParsedRow where
  "emptyObject = \<lparr>props = [], nullProto = False\<rparr>"

text \<open>
  Writing a property that exists replaces its value where it stands; a new property is
  added after the existing ones.
\<close>

fun putProp :: "(string \<times> string option) list \<Rightarrow> string \<Rightarrow> string option
    \<Rightarrow> (string \<times> string option) list" where
  "putProp [] k v = [(k, v)]"
| "putProp ((k', v') # ps) k v =
     (if k' = k then (k, v) # ps else (k', v') # putProp ps k v)"

text \<open>
  The assignment \<^verbatim>\<open>obj[key] = v\<close>. While the object still inherits from
  \<^verbatim>\<open>Object.prototype\<close>, the key \<^verbatim>\<open>__proto__\<close> reaches the inherited setter:
  it ignores a string and replaces the prototype on \<^verbatim>\<open>null\<close>, creating no own
  property either way. Every other write creates or updates an own property.
\<close>

definition assign :: "ParsedRow \<Rightarrow> string \<Rightarrow> string option \<Rightarrow> ParsedRow" where
  "assign obj key v =
     (if key = ''__proto__'' \<and> \<not> nullProto obj
      then (case v of None \<Rightarrow> obj\<lparr>nullProto := True\<rparr> | Some s \<Rightarrow> obj)
      else obj\<lparr>props := putProp (props obj) key v\<rparr>)"

text \<open>
  Property enumeration (\<^verbatim>\<open>Object.entries\<close>, \<^verbatim>\<open>Object.keys\<close>, \<^verbatim>\<open>for-in\<close>)
  lists the array-index keys first, in ascending numeric order, then the other string
  keys in creation order. An array index is the canonical decimal form of an integer
  between 0 and \<open>2^32 - 2\<close>.
\<close>

definition is_digit :: "char \<Rightarrow> bool" where
  "is_digit c = (c \<in> set ''0123456789'')"

definition digit_value :: "char \<Rightarrow> nat" where
  "digit_value c = of_char c - 48"

definition index_value :: "string \<Rightarrow> nat" where
  "index_value s = foldl (\<lambda>acc c. 10 * acc + digit_value c) 0 s"

definition isArrayIndex :: "string \<Rightarrow> bool" where
  "isArrayIndex s =
     (s \<noteq> [] \<and> list_all is_digit s \<and> (length s = 1 \<or> hd s \<noteq> CHR ''0'')
      \<and> index_value s \<le> 4294967294)"

definition entries :: "ParsedRow \<Rightarrow> (string \<times> string option) list" where
  "entries obj =
     sort_key (\<lambda>p. index_value (fst p)) (filter (\<lambda>p. isArrayIndex (fst p)) (props obj))
     @ filter (\<lambda>p. \<not> isArrayIndex (fst p)) (props obj)"

section \<open>The three static helpers\<close>

text \<open>
  \<^verbatim>\<open>columnInfo.map((col, index) => col?.Name ?? `col_${index}`)\<close>: the nullish
  coalescing operator falls back only when the name is \<^verbatim>\<open>undefined\<close> or
  \<^verbatim>\<open>null\<close>.
\<close>

definition headersFromMeta :: "ColumnInfo list \<Rightarrow> string list" where
  "headersFromMeta columnInfo =
     map (\<lambda>(index, col). case Name col of Some n \<Rightarrow> n
                                        | None \<Rightarrow> ''col_'' @ string_of_index index)
         (enumerate 0 columnInfo)"

text \<open>
  \<^verbatim>\<open>row.Data?.[index]?.VarCharValue ?? null\<close>: \<^verbatim>\<open>null\<close> when the row has no
  \<^verbatim>\<open>Data\<close>, when the index is past its end, or when the cell holds no value.
\<close>

definition cellValue :: "Row \<Rightarrow> nat \<Rightarrow> string option" where
  "cellValue row index =
     (case Data row of
        None \<Rightarrow> None
      | Some cells \<Rightarrow> if index < length cells then VarCharValue (cells ! index) else None)"

text \<open>
  \<^verbatim>\<open>for (const [index, header] of headers.entries()) obj[header] = ...\<close>: the loop
  body, folded over the indexed headers from the empty object.
\<close>

definition rowToObject :: "Row \<Rightarrow> string list \<Rightarrow> ParsedRow" where
  "rowToObject row headers =
     foldl (\<lambda>obj (index, header). assign obj header (cellValue row index))
           emptyObject (enumerate 0 headers)"

text \<open>
  \<^verbatim>\<open>if (!row?.Data?.length) return false\<close>: a row without \<^verbatim>\<open>Data\<close> or with
  no cells is never a header row. Otherwise every header must equal, strictly, the
  value of the cell at its own index.
\<close>

definition isHeaderRow :: "Row \<Rightarrow> string list \<Rightarrow> bool" where
  "isHeaderRow row headers =
     (case Data row of
        None \<Rightarrow> False
      | Some cells \<Rightarrow>
          if length cells = 0 then False
          else list_all (\<lambda>(index, header). cellValue row index = Some header)
                        (enumerate 0 headers))"

section \<open>The parser instance\<close>

text \<open>
  The two private fields of \<^verbatim>\<open>AthenaQueryResultParser\<close>. The methods mutate
  them; the model passes the state in and returns it updated next to the result.
\<close>

record ParserState =
  headers :: "string list option"
  headerRowDropped :: bool

text \<open>The constructor: \<^verbatim>\<open>headers = null\<close>, \<^verbatim>\<open>headerRowDropped = false\<close>.\<close>

definition newParser :: ParserState where
  "newParser = \<lparr>headers = None, headerRowDropped = False\<rparr>"

text \<open>
  \<^verbatim>\<open>if (!this.headers && columnInfo.length > 0)\<close>: an array, even an empty one,
  is truthy, so the first test asks whether the field is \<^verbatim>\<open>null\<close>.
\<close>

definition initHeaders :: "ParserState \<Rightarrow> ColumnInfo list \<Rightarrow> ParserState" where
  "initHeaders st columnInfo =
     (if headers st = None \<and> length columnInfo > 0
      then st\<lparr>headers := Some (headersFromMeta columnInfo)\<rparr>
      else st)"

definition getHeaders :: "ParserState \<Rightarrow> string list option" where
  "getHeaders st = headers st"

text \<open>\<^verbatim>\<open>resultSet.ResultSetMetadata?.ColumnInfo ?? []\<close>\<close>

definition metaOf :: "ResultSet \<Rightarrow> ColumnInfo list" where
  "metaOf resultSet =
     (case ResultSetMetadata resultSet of
        None \<Rightarrow> []
      | Some m \<Rightarrow> (case ColumnInfo m of None \<Rightarrow> [] | Some cols \<Rightarrow> cols))"

text \<open>\<^verbatim>\<open>resultSet.Rows ?? []\<close>\<close>

definition rawRowsOf :: "ResultSet \<Rightarrow> Row list" where
  "rawRowsOf resultSet = (case Rows resultSet of None \<Rightarrow> [] | Some rs \<Rightarrow> rs)"

text \<open>
  The local \<^verbatim>\<open>skipHeader\<close> of \<^verbatim>\<open>parseResultSet\<close>, from the state after header
  initialisation, the raw rows and the stored headers.
\<close>

definition skipHeader :: "ParserState \<Rightarrow> Row list \<Rightarrow> string list \<Rightarrow> bool" where
  "skipHeader st rawRows hs =
     (\<not> headerRowDropped st \<and> length rawRows > 0 \<and> isHeaderRow (rawRows ! 0) hs)"

definition parseResultSet ::
    "ParserState \<Rightarrow> ResultSet option \<Rightarrow> ParsedRow list \<times> ParserState" where
  "parseResultSet st resultSet =
     (case resultSet of
        None \<Rightarrow> ([], st)
      | Some rs \<Rightarrow>
          let st1 = initHeaders st (metaOf rs) in
          (case headers st1 of
             None \<Rightarrow> ([], st1)
           | Some hs \<Rightarrow>
               let rawRows = rawRowsOf rs;
                   skip = skipHeader st1 rawRows hs;
                   st2 = (if skip then st1\<lparr>headerRowDropped := True\<rparr> else st1);
                   rows = (if skip then drop 1 rawRows else rawRows)
               in (map (\<lambda>row. rowToObject row hs) rows, st2)))"

text \<open>
  What a row parser \<^verbatim>\<open>(row: ParsedRow) => T | null\<close> can hand back at run time:
  \<^verbatim>\<open>null\<close>, \<^verbatim>\<open>undefined\<close> (when \<open>T\<close> admits it), or a proper value.
\<close>

datatype 'a jsResult = JsNull | JsUndefined | JsValue 'a

text \<open>
  The loop of \<^verbatim>\<open>parseResultSetWith\<close> over the parsed rows, with the array
  \<^verbatim>\<open>results\<close> as accumulator: \<^verbatim>\<open>if (parsed !== null) results.push(parsed)\<close>.
\<close>

fun pushParsed :: "(ParsedRow \<Rightarrow> 'a jsResult) \<Rightarrow> ParsedRow list \<Rightarrow> 'a jsResult list
    \<Rightarrow> 'a jsResult list" where
  "pushParsed rowParser [] results = results"
| "pushParsed rowParser (row # rows) results =
     (let parsed = rowParser row in
      if parsed \<noteq> JsNull then pushParsed rowParser rows (results @ [parsed])
      else pushParsed rowParser rows results)"

definition parseResultSetWith ::
    "ParserState \<Rightarrow> ResultSet option \<Rightarrow> (ParsedRow \<Rightarrow> 'a jsResult)
     \<Rightarrow> 'a jsResult list \<times> ParserState" where
  "parseResultSetWith st resultSet rowParser =
     (let (rows, st') = parseResultSet st resultSet
      in (pushParsed rowParser rows [], st'))"

definition reset :: "ParserState \<Rightarrow> ParserState" where
  "reset st = st\<lparr>headers := None, headerRowDropped := False\<rparr>"

section \<open>Sequences of calls on one instance\<close>

text \<open>
  A caller drives an instance through its public methods. A call and what it returns
  are values, so that a whole history of calls can be run from a given state.
\<close>

datatype 'a call =
    CallInitHeaders "ColumnInfo list"
  | CallGetHeaders
  | CallParse "ResultSet option"
  | CallParseWith "ResultSet option" "ParsedRow \<Rightarrow> 'a jsResult"
  | CallReset

datatype 'a reply =
    Done
  | GotHeaders "string list option"
  | Parsed "ParsedRow list"
  | Transformed "'a jsResult list"

fun perform :: "ParserState \<Rightarrow> 'a call \<Rightarrow> 'a reply \<times> ParserState" where
  "perform st (CallInitHeaders columnInfo) = (Done, initHeaders st columnInfo)"
| "perform st CallGetHeaders = (GotHeaders (getHeaders st), st)"
| "perform st (CallParse resultSet) =
     (let (rows, st') = parseResultSet st resultSet in (Parsed rows, st'))"
| "perform st (CallParseWith resultSet rowParser) =
     (let (results, st') = parseResultSetWith st resultSet rowParser
      in (Transformed results, st'))"
| "perform st CallReset = (Done, reset st)"

fun performAll :: "ParserState \<Rightarrow> 'a call list \<Rightarrow> 'a reply list \<times> ParserState" where
  "performAll st [] = ([], st)"
| "performAll st (c # cs) =
     (let (r, st') = perform st c;
          (rs, st'') = performAll st' cs
      in (r # rs, st''))"

text \<open>A session: a history with no \<^verbatim>\<open>reset()\<close> in it.\<close>

definition isReset :: "'a call \<Rightarrow> bool" where
  "isReset c = (case c of CallReset \<Rightarrow> True | _ \<Rightarrow> False)"

text \<open>
  The state invariant read off \<^verbatim>\<open>initHeaders\<close> and \<^verbatim>\<open>reset\<close>: the stored
  headers are \<^verbatim>\<open>null\<close> or a list with at least one name.
\<close>

definition headersInv :: "ParserState \<Rightarrow> bool" where
  "headersInv st = (headers st \<noteq> Some [])"

section \<open>Rows that are absent at run time\<close>











section \<open>The fixtures of the test suite\<close>

text \<open>
  \<^verbatim>\<open>makeColumnInfo\<close>, \<^verbatim>\<open>makeRow\<close> and \<^verbatim>\<open>makeResultSet\<close> of
  \<^verbatim>\<open>test/parser.test.ts\<close>, used for the concrete instances below. A
  \<^verbatim>\<open>null\<close> value becomes the empty cell \<^verbatim>\<open>{}\<close>.
\<close>

definition makeColumnInfo :: "string list \<Rightarrow> ColumnInfo list" where
  "makeColumnInfo names = map (\<lambda>n. \<lparr>Name = Some n\<rparr>) names"

definition makeRow :: "string option list \<Rightarrow> Row" where
  "makeRow vs = \<lparr>Data = Some (map (\<lambda>v. \<lparr>VarCharValue = v\<rparr>) vs)\<rparr>"

definition makeResultSet :: "string list \<Rightarrow> string option list list \<Rightarrow> ResultSet" where
  "makeResultSet columnNames rows =
     \<lparr>Rows = Some (map makeRow rows),
      ResultSetMetadata = Some \<lparr>ColumnInfo = Some (makeColumnInfo columnNames)\<rparr>\<rparr>"

section \<open>Facts about the helpers\<close>

lemma length_headersFromMeta: "length (headersFromMeta cols) = length cols"
  by (simp add: headersFromMeta_def)

lemma nth_headersFromMeta:
  "i < length cols \<Longrightarrow>
   headersFromMeta cols ! i =
     (case Name (cols ! i) of Some n \<Rightarrow> n | None \<Rightarrow> ''col_'' @ string_of_index i)"
  by (simp add: headersFromMeta_def nth_enumerate_eq)

lemma headersFromMeta_nonempty: "cols \<noteq> [] \<Longrightarrow> headersFromMeta cols \<noteq> []"
  using length_headersFromMeta [of cols] by auto

text \<open>The rendering of an index reads back as the index: it is its decimal numeral.\<close>

lemma digit_value_digit_char: "d < 10 \<Longrightarrow> digit_value (digit_char d) = d"
proof -
  assume "d < 10"
  then have "d \<in> {0, 1, 2, 3, 4, 5, 6, 7, 8, 9}" by auto
  then show ?thesis
    by (auto simp: digit_value_def digit_char_def)
qed

lemma index_value_snoc: "index_value (s @ [c]) = 10 * index_value s + digit_value c"
  by (simp add: index_value_def)

lemma index_value_string_of_index: "index_value (string_of_index n) = n"
proof (induction n rule: string_of_index.induct)
  case (1 n)
  show ?case
  proof (cases "n < 10")
    case True
    then show ?thesis
      by (subst string_of_index.simps) (simp add: index_value_def digit_value_digit_char)
  next
    case False
    with 1 show ?thesis
      by (subst string_of_index.simps) (simp add: index_value_snoc digit_value_digit_char)
  qed
qed

lemma list_all_enumerate:
  "list_all (\<lambda>(i, x). P i x) (enumerate n xs) = (\<forall>i<length xs. P (n + i) (xs ! i))"
  by (simp add: list_all_length nth_enumerate_eq)

lemma map_enumerate_upt:
  "map (\<lambda>(index, header). f header index) (enumerate 0 hs) =
   map (\<lambda>i. f (hs ! i) i) [0..<length hs]"
  by (rule nth_equalityI) (simp_all add: nth_enumerate_eq)

subsection \<open>Building the object\<close>

lemma putProp_fresh: "k \<notin> fst ` set ps \<Longrightarrow> putProp ps k v = ps @ [(k, v)]"
  by (induction ps) auto

lemma assign_fresh:
  "key \<noteq> ''__proto__'' \<Longrightarrow> key \<notin> fst ` set (props obj) \<Longrightarrow>
   assign obj key v = obj\<lparr>props := props obj @ [(key, v)]\<rparr>"
  by (simp add: assign_def putProp_fresh)

lemma foldl_assign_fresh:
  "distinct hs \<Longrightarrow> ''__proto__'' \<notin> set hs \<Longrightarrow> set hs \<inter> fst ` set (props obj) = {} \<Longrightarrow>
   foldl (\<lambda>obj (index, header). assign obj header (cellValue row index)) obj (enumerate n hs) =
     obj\<lparr>props := props obj @
       map (\<lambda>(index, header). (header, cellValue row index)) (enumerate n hs)\<rparr>"
proof (induction hs arbitrary: obj n)
  case Nil
  then show ?case by simp
next
  case (Cons h hs)
  have fresh: "h \<noteq> ''__proto__''" "h \<notin> fst ` set (props obj)"
    using Cons.prems by auto
  let ?obj' = "obj\<lparr>props := props obj @ [(h, cellValue row n)]\<rparr>"
  have disj: "set hs \<inter> fst ` set (props ?obj') = {}"
    using Cons.prems by auto
  have "foldl (\<lambda>obj (index, header). assign obj header (cellValue row index)) ?obj'
          (enumerate (Suc n) hs) =
        ?obj'\<lparr>props := props ?obj' @
          map (\<lambda>(index, header). (header, cellValue row index)) (enumerate (Suc n) hs)\<rparr>"
    using Cons.prems by (intro Cons.IH disj) auto
  then show ?case
    by (simp add: assign_fresh [OF fresh])
qed

lemma props_rowToObject:
  assumes "distinct hs" and "''__proto__'' \<notin> set hs"
  shows "props (rowToObject row hs) = map (\<lambda>i. (hs ! i, cellValue row i)) [0..<length hs]"
proof -
  have "props (rowToObject row hs) =
        map (\<lambda>(index, header). (header, cellValue row index)) (enumerate 0 hs)"
    unfolding rowToObject_def
    by (subst foldl_assign_fresh) (use assms in \<open>simp_all add: emptyObject_def\<close>)
  then show ?thesis
    by (simp add: map_enumerate_upt)
qed

lemma entries_no_index:
  "\<forall>p \<in> set (props obj). \<not> isArrayIndex (fst p) \<Longrightarrow> entries obj = props obj"
  by (simp add: entries_def cong: filter_cong)

lemma entries_rowToObject:
  assumes "distinct hs" and "\<forall>h \<in> set hs. h \<noteq> ''__proto__'' \<and> \<not> isArrayIndex h"
  shows "entries (rowToObject row hs) = map (\<lambda>i. (hs ! i, cellValue row i)) [0..<length hs]"
proof -
  have p: "props (rowToObject row hs) = map (\<lambda>i. (hs ! i, cellValue row i)) [0..<length hs]"
    using assms by (intro props_rowToObject) auto
  have "\<forall>p \<in> set (props (rowToObject row hs)). \<not> isArrayIndex (fst p)"
    using assms(2) by (auto simp: p)
  then show ?thesis
    by (simp add: entries_no_index p)
qed

lemma rowToObject_same_cells:
  "(\<And>i. i < length hs \<Longrightarrow> cellValue row i = cellValue row' i) \<Longrightarrow>
   rowToObject row hs = rowToObject row' hs"
  unfolding rowToObject_def
  by (rule foldl_cong) (auto simp: in_set_enumerate_eq)

lemma cellValue_append:
  "i < length cells \<Longrightarrow>
   cellValue (row\<lparr>Data := Some (cells @ extra)\<rparr>) i = cellValue (row\<lparr>Data := Some cells\<rparr>) i"
  by (simp add: cellValue_def nth_append)

subsection \<open>The object for any header list\<close>

lemma map_of_putProp: "map_of (putProp ps k v) = (map_of ps)(k \<mapsto> v)"
  by (induction ps) (auto simp: fun_eq_iff)

lemma map_fst_putProp:
  "map fst (putProp ps k v) = (if k \<in> set (map fst ps) then map fst ps else map fst ps @ [k])"
  by (induction ps) (fastforce+)

lemma keys_putProp: "fst ` set (putProp ps k v) = insert k (fst ` set ps)"
proof -
  have "set (map fst (putProp ps k v)) = insert k (set (map fst ps))"
    by (auto simp: map_fst_putProp)
  then show ?thesis by simp
qed

lemma distinct_putProp: "distinct (map fst ps) \<Longrightarrow> distinct (map fst (putProp ps k v))"
  by (simp add: map_fst_putProp)

lemma rowToObject_snoc:
  "rowToObject row (hs @ [h]) = assign (rowToObject row hs) h (cellValue row (length hs))"
  by (simp add: rowToObject_def enumerate_append_eq)

lemma distinct_keys_assign:
  "distinct (map fst (props obj)) \<Longrightarrow> distinct (map fst (props (assign obj key v)))"
  by (simp add: assign_def distinct_putProp split: option.splits)

lemma distinct_keys_rowToObject: "distinct (map fst (props (rowToObject row hs)))"
proof (induction hs rule: rev_induct)
  case Nil
  show ?case by (simp add: rowToObject_def emptyObject_def)
next
  case (snoc h hs)
  then show ?case
    by (simp add: rowToObject_snoc distinct_keys_assign)
qed

lemma map_of_assign_other:
  "h \<noteq> key \<Longrightarrow> map_of (props (assign obj key v)) h = map_of (props obj) h"
  by (simp add: assign_def map_of_putProp split: option.splits)

lemma map_of_assign_same:
  "key \<noteq> ''__proto__'' \<Longrightarrow> map_of (props (assign obj key v)) key = Some v"
  by (simp add: assign_def map_of_putProp)

lemma map_of_props_rowToObject:
  "i < length hs \<Longrightarrow> hs ! i \<noteq> ''__proto__'' \<Longrightarrow>
   \<forall>j<length hs. i < j \<longrightarrow> hs ! j \<noteq> hs ! i \<Longrightarrow>
   map_of (props (rowToObject row hs)) (hs ! i) = Some (cellValue row i)"
proof (induction hs rule: rev_induct)
  case Nil
  then show ?case by simp
next
  case (snoc h hs)
  show ?case
  proof (cases "i < length hs")
    case True
    have "(hs @ [h]) ! length hs \<noteq> (hs @ [h]) ! i"
      using snoc.prems(3) [rule_format, of "length hs"] True by simp
    then have other: "hs ! i \<noteq> h"
      using True by (simp add: nth_append)
    have later: "\<forall>j<length hs. i < j \<longrightarrow> hs ! j \<noteq> hs ! i"
    proof (intro allI impI)
      fix j assume "j < length hs" "i < j"
      then have "(hs @ [h]) ! j \<noteq> (hs @ [h]) ! i"
        using snoc.prems(3) [rule_format, of j] by simp
      then show "hs ! j \<noteq> hs ! i"
        using \<open>j < length hs\<close> \<open>i < j\<close> by (simp add: nth_append)
    qed
    have "map_of (props (rowToObject row hs)) (hs ! i) = Some (cellValue row i)"
      using snoc.prems(2) True later by (intro snoc.IH) (simp_all add: nth_append)
    then show ?thesis
      using True other by (simp add: rowToObject_snoc map_of_assign_other nth_append)
  next
    case False
    then have i: "i = length hs"
      using snoc.prems(1) by simp
    then have "h \<noteq> ''__proto__''"
      using snoc.prems(2) by simp
    then show ?thesis
      by (simp add: i rowToObject_snoc map_of_assign_same)
  qed
qed

lemma keys_rowToObject:
  "''__proto__'' \<notin> set hs \<Longrightarrow> fst ` set (props (rowToObject row hs)) = set hs"
proof (induction hs rule: rev_induct)
  case Nil
  show ?case by (simp add: rowToObject_def emptyObject_def)
next
  case (snoc h hs)
  then have "h \<noteq> ''__proto__''" by auto
  with snoc show ?case
    by (simp add: rowToObject_snoc assign_def keys_putProp)
qed

lemma length_props_rowToObject:
  assumes "''__proto__'' \<notin> set hs"
  shows "length (props (rowToObject row hs)) = card (set hs)"
proof -
  have "card (set (map fst (props (rowToObject row hs)))) =
      length (map fst (props (rowToObject row hs)))"
    by (rule distinct_card) (rule distinct_keys_rowToObject)
  then show ?thesis
    using keys_rowToObject [OF assms, of row] by simp
qed

subsection \<open>Enumeration against the stored properties\<close>

lemma set_entries: "set (entries obj) = set (props obj)"
  by (auto simp: entries_def)

lemma length_entries: "length (entries obj) = length (props obj)"
  by (simp add: entries_def sum_length_filter_compl)

lemma distinct_keys_entries:
  assumes "distinct (map fst (props obj))"
  shows "distinct (map fst (entries obj))"
proof -
  have d: "distinct (props obj)" and inj: "inj_on fst (set (props obj))"
    using assms by (simp_all add: distinct_map)
  have "distinct (entries obj)"
    using d by (auto simp: entries_def)
  moreover have "inj_on fst (set (entries obj))"
    using inj by (simp add: set_entries)
  ultimately show ?thesis
    by (simp add: distinct_map)
qed

lemma map_of_entries:
  "distinct (map fst (props obj)) \<Longrightarrow> map_of (entries obj) = map_of (props obj)"
  by (simp add: map_of_inject_set distinct_keys_entries set_entries)

lemma cellValue_padded:
  "Data row = Some cells \<Longrightarrow>
   cellValue (row\<lparr>Data := Some (cells @ replicate n \<lparr>VarCharValue = None\<rparr>)\<rparr>) i =
   cellValue row i"
  by (simp add: cellValue_def nth_append)

subsection \<open>The transform loop\<close>

lemma pushParsed_eq:
  "pushParsed f rows acc = acc @ filter (\<lambda>v. v \<noteq> JsNull) (map f rows)"
  by (induction rows arbitrary: acc) (simp_all add: Let_def)

lemma fst_parseResultSetWith:
  "fst (parseResultSetWith st b f) = filter (\<lambda>v. v \<noteq> JsNull) (map f (fst (parseResultSet st b)))"
  by (simp add: parseResultSetWith_def pushParsed_eq split_beta)

lemma snd_parseResultSetWith: "snd (parseResultSetWith st b f) = snd (parseResultSet st b)"
  by (simp add: parseResultSetWith_def split_beta)

lemma filter_all_undefined:
  "\<forall>x \<in> set xs. f x = JsUndefined \<Longrightarrow>
   filter (\<lambda>v. v \<noteq> JsNull) (map f xs) = replicate (length xs) JsUndefined"
  by (induction xs) simp_all

lemma filter_undefined_kept:
  "filter (\<lambda>v. v = JsUndefined) (filter (\<lambda>v. v \<noteq> JsNull) (map f xs)) =
   map f (filter (\<lambda>x. f x = JsUndefined) xs)"
  by (induction xs) auto

subsection \<open>The state across calls\<close>

lemma reset_new: "reset st = newParser"
  by (cases st) (simp add: reset_def newParser_def)

lemma initHeaders_set: "headers st = Some hs \<Longrightarrow> initHeaders st cols = st"
  by (simp add: initHeaders_def)

lemma parseResultSet_dropped:
  "headers st = Some hs \<Longrightarrow> headerRowDropped st \<Longrightarrow>
   parseResultSet st b =
     (map (\<lambda>row. rowToObject row hs) (case b of None \<Rightarrow> [] | Some rs \<Rightarrow> rawRowsOf rs), st)"
  by (cases b) (simp_all add: parseResultSet_def initHeaders_set skipHeader_def)

lemma perform_dropped:
  "headers st = Some hs \<Longrightarrow> headerRowDropped st \<Longrightarrow> \<not> isReset c \<Longrightarrow>
   snd (perform st c) = st"
  by (cases c)
     (simp_all add: parseResultSet_dropped parseResultSetWith_def initHeaders_set isReset_def)

lemma performAll_dropped:
  "headers st = Some hs \<Longrightarrow> headerRowDropped st \<Longrightarrow> \<forall>c \<in> set cs. \<not> isReset c \<Longrightarrow>
   snd (performAll st cs) = st"
proof (induction cs)
  case Nil
  then show ?case by simp
next
  case (Cons c cs)
  then have "snd (perform st c) = st"
    by (simp add: perform_dropped)
  with Cons show ?case
    by (simp add: split_beta)
qed

lemma initHeaders_inv: "headersInv st \<Longrightarrow> headersInv (initHeaders st cols)"
  by (auto simp: headersInv_def initHeaders_def headersFromMeta_nonempty)

lemma headers_parseResultSet:
  "headers (snd (parseResultSet st b)) =
     (case b of None \<Rightarrow> headers st | Some rs \<Rightarrow> headers (initHeaders st (metaOf rs)))"
  by (simp add: parseResultSet_def Let_def split: option.splits)

lemma parseResultSet_inv: "headersInv st \<Longrightarrow> headersInv (snd (parseResultSet st b))"
  using initHeaders_inv [of st]
  by (cases b) (simp_all add: headersInv_def headers_parseResultSet)

lemma reset_inv: "headersInv (reset st)"
  by (simp add: headersInv_def reset_def)

lemma perform_inv: "headersInv st \<Longrightarrow> headersInv (snd (perform st c))"
  by (cases c)
     (simp_all add: initHeaders_inv parseResultSet_inv snd_parseResultSetWith reset_inv
        split_beta)

lemma performAll_inv: "headersInv st \<Longrightarrow> headersInv (snd (performAll st cs))"
  by (induction cs arbitrary: st) (simp_all add: perform_inv split_beta)


subsection \<open>Rows present at run time\<close>







section \<open>The claims\<close>

subsection \<open>C1: the header row is suppressed once per session\<close>

text \<open>
  Claim C1. Let \<open>hs\<close> be the headers stored once a parse call has run its header
  initialisation. If the header-row-dropped flag is false, the rows are not empty and
  the first row is a header row for \<open>hs\<close>, the call decodes the rows after the first,
  in order, and sets the flag. In every other case the call decodes all the rows, in
  order, and leaves the flag as it was. Once the flag is set, after any further calls
  with no reset among them the state is still the same, and a parse call there decodes
  every row of its batch, in order, the first one included even when it equals the
  headers: no second suppression happens in the session.
\<close>

theorem header_row_suppressed_once:
  assumes "headers (initHeaders st (metaOf rs)) = Some hs"
  shows
    "(\<not> headerRowDropped st \<and> rawRowsOf rs \<noteq> [] \<and> isHeaderRow (hd (rawRowsOf rs)) hs \<longrightarrow>
        parseResultSet st (Some rs) =
          (map (\<lambda>row. rowToObject row hs) (tl (rawRowsOf rs)),
           (initHeaders st (metaOf rs))\<lparr>headerRowDropped := True\<rparr>)) \<and>
     (\<not> (\<not> headerRowDropped st \<and> rawRowsOf rs \<noteq> [] \<and> isHeaderRow (hd (rawRowsOf rs)) hs) \<longrightarrow>
        parseResultSet st (Some rs) =
          (map (\<lambda>row. rowToObject row hs) (rawRowsOf rs), initHeaders st (metaOf rs))) \<and>
     (\<forall>st' cs b.
        headers st' = Some hs \<and> headerRowDropped st' \<and> (\<forall>c \<in> set cs. \<not> isReset c) \<longrightarrow>
        parseResultSet (snd (performAll st' cs)) b =
          (map (\<lambda>row. rowToObject row hs)
             (case b of None \<Rightarrow> [] | Some rs' \<Rightarrow> rawRowsOf rs'), st'))"
proof -
  have flag: "headerRowDropped (initHeaders st (metaOf rs)) = headerRowDropped st"
    by (simp add: initHeaders_def)
  have suppressed:
    "\<not> headerRowDropped st \<and> rawRowsOf rs \<noteq> [] \<and> isHeaderRow (hd (rawRowsOf rs)) hs \<longrightarrow>
       parseResultSet st (Some rs) =
         (map (\<lambda>row. rowToObject row hs) (tl (rawRowsOf rs)),
          (initHeaders st (metaOf rs))\<lparr>headerRowDropped := True\<rparr>)"
    using assms
    by (cases "rawRowsOf rs") (simp_all add: parseResultSet_def skipHeader_def flag Let_def)
  have kept:
    "\<not> (\<not> headerRowDropped st \<and> rawRowsOf rs \<noteq> [] \<and> isHeaderRow (hd (rawRowsOf rs)) hs) \<longrightarrow>
       parseResultSet st (Some rs) =
         (map (\<lambda>row. rowToObject row hs) (rawRowsOf rs), initHeaders st (metaOf rs))"
    using assms
    by (cases "rawRowsOf rs") (auto simp: parseResultSet_def skipHeader_def flag Let_def)
  have later:
    "\<forall>st' cs b.
       headers st' = Some hs \<and> headerRowDropped st' \<and> (\<forall>c \<in> set cs. \<not> isReset c) \<longrightarrow>
       parseResultSet (snd (performAll st' cs)) b =
         (map (\<lambda>row. rowToObject row hs)
            (case b of None \<Rightarrow> [] | Some rs' \<Rightarrow> rawRowsOf rs'), st')"
    by (simp add: performAll_dropped parseResultSet_dropped)
  from suppressed kept later show ?thesis by blast
qed

text \<open>
  The first test batch of the suite, parsed twice by one instance: the header row is
  dropped the first time and decoded as data the second time.
\<close>

theorem header_row_suppressed_once_witness:
  "parseResultSet newParser
     (Some (makeResultSet [''id'', ''name'']
        [[Some ''id'', Some ''name''], [Some ''1'', Some ''Alice''], [Some ''2'', Some ''Bob'']])) =
     (map (\<lambda>row. rowToObject row [''id'', ''name''])
        [makeRow [Some ''1'', Some ''Alice''], makeRow [Some ''2'', Some ''Bob'']],
      \<lparr>headers = Some [''id'', ''name''], headerRowDropped = True\<rparr>) \<and>
   parseResultSet \<lparr>headers = Some [''id'', ''name''], headerRowDropped = True\<rparr>
     (Some (makeResultSet [''id'', ''name'']
        [[Some ''id'', Some ''name''], [Some ''1'', Some ''Alice'']])) =
     (map (\<lambda>row. rowToObject row [''id'', ''name''])
        [makeRow [Some ''id'', Some ''name''], makeRow [Some ''1'', Some ''Alice'']],
      \<lparr>headers = Some [''id'', ''name''], headerRowDropped = True\<rparr>)"
proof -
  let ?rs = "makeResultSet [''id'', ''name'']
        [[Some ''id'', Some ''name''], [Some ''1'', Some ''Alice''], [Some ''2'', Some ''Bob'']]"
  have h: "headers (initHeaders newParser (metaOf ?rs)) = Some [''id'', ''name'']"
    by (simp add: initHeaders_def newParser_def metaOf_def makeResultSet_def
        makeColumnInfo_def headersFromMeta_def)
  have first: "\<not> headerRowDropped newParser \<and> rawRowsOf ?rs \<noteq> [] \<and>
      isHeaderRow (hd (rawRowsOf ?rs)) [''id'', ''name'']"
    by (simp add: newParser_def rawRowsOf_def makeResultSet_def makeRow_def isHeaderRow_def
        cellValue_def)
  have st1: "(initHeaders newParser (metaOf ?rs))\<lparr>headerRowDropped := True\<rparr> =
      \<lparr>headers = Some [''id'', ''name''], headerRowDropped = True\<rparr>"
    by (simp add: initHeaders_def newParser_def metaOf_def makeResultSet_def
        makeColumnInfo_def headersFromMeta_def)
  have tl: "tl (rawRowsOf ?rs) =
      [makeRow [Some ''1'', Some ''Alice''], makeRow [Some ''2'', Some ''Bob'']]"
    by (simp add: rawRowsOf_def makeResultSet_def)
  note inst = header_row_suppressed_once [OF h]
  from inst first have one: "parseResultSet newParser (Some ?rs) =
      (map (\<lambda>row. rowToObject row [''id'', ''name'']) (tl (rawRowsOf ?rs)),
       (initHeaders newParser (metaOf ?rs))\<lparr>headerRowDropped := True\<rparr>)"
    by blast
  from inst have later:
    "\<And>st' (cs :: unit call list) b.
       headers st' = Some [''id'', ''name''] \<Longrightarrow> headerRowDropped st' \<Longrightarrow>
       (\<forall>c \<in> set cs. \<not> isReset c) \<Longrightarrow>
       parseResultSet (snd (performAll st' cs)) b =
         (map (\<lambda>row. rowToObject row [''id'', ''name''])
            (case b of None \<Rightarrow> [] | Some rs' \<Rightarrow> rawRowsOf rs'), st')"
    by blast
  have two:
    "parseResultSet \<lparr>headers = Some [''id'', ''name''], headerRowDropped = True\<rparr>
       (Some (makeResultSet [''id'', ''name'']
          [[Some ''id'', Some ''name''], [Some ''1'', Some ''Alice'']])) =
     (map (\<lambda>row. rowToObject row [''id'', ''name''])
        (rawRowsOf (makeResultSet [''id'', ''name'']
          [[Some ''id'', Some ''name''], [Some ''1'', Some ''Alice'']])),
      \<lparr>headers = Some [''id'', ''name''], headerRowDropped = True\<rparr>)"
    using later [of "\<lparr>headers = Some [''id'', ''name''], headerRowDropped = True\<rparr>" "[]"
        "Some (makeResultSet [''id'', ''name'']
          [[Some ''id'', Some ''name''], [Some ''1'', Some ''Alice'']])"]
    by simp
  show ?thesis
    using one two by (simp add: st1 tl) (simp add: rawRowsOf_def makeResultSet_def)
qed

subsection \<open>C2: headers from the column metadata\<close>

text \<open>
  Claim C2, as stated, asks for the placeholder \<open>col_i\<close> also when the name is the
  empty string. The code falls back with \<^verbatim>\<open>??\<close>, which keeps an empty string: a
  column whose name is \<^verbatim>\<open>""\<close> gets the header \<^verbatim>\<open>""\<close>, not \<^verbatim>\<open>"col_0"\<close>.
\<close>

theorem headersFromMeta_empty_name_counterexample:
  "headersFromMeta [\<lparr>Name = Some ''''\<rparr>] = [''''] \<and>
   headersFromMeta [\<lparr>Name = Some ''''\<rparr>] \<noteq> [''col_0'']"
  by (simp add: headersFromMeta_def)

text \<open>
  Claim C2, amended. For every column list of length \<open>n\<close>, \<open>headersFromMeta\<close>
  returns a list of length \<open>n\<close> in the same order, where position \<open>i\<close> is the
  column's name when one is present (the empty string included) and the placeholder
  \<open>col_i\<close>, with the 0-based index in decimal, when the name is absent.
\<close>

theorem headersFromMeta_names:
  "length (headersFromMeta cols) = length cols \<and>
   (\<forall>i<length cols. headersFromMeta cols ! i =
      (case Name (cols ! i) of Some n \<Rightarrow> n | None \<Rightarrow> ''col_'' @ string_of_index i)) \<and>
   (\<forall>i. index_value (string_of_index i) = i)"
  by (simp add: length_headersFromMeta nth_headersFromMeta index_value_string_of_index)

text \<open>The example of the specification: \<^verbatim>\<open>[{}, {name: "b"}, {}]\<close>.\<close>

theorem headersFromMeta_names_witness:
  "length (headersFromMeta [\<lparr>Name = None\<rparr>, \<lparr>Name = Some ''b''\<rparr>, \<lparr>Name = None\<rparr>]) = 3 \<and>
   headersFromMeta [\<lparr>Name = None\<rparr>, \<lparr>Name = Some ''b''\<rparr>, \<lparr>Name = None\<rparr>] ! 0 = ''col_0'' \<and>
   headersFromMeta [\<lparr>Name = None\<rparr>, \<lparr>Name = Some ''b''\<rparr>, \<lparr>Name = None\<rparr>] ! 1 = ''b'' \<and>
   headersFromMeta [\<lparr>Name = None\<rparr>, \<lparr>Name = Some ''b''\<rparr>, \<lparr>Name = None\<rparr>] ! 2 = ''col_2''"
  using headersFromMeta_names [of "[\<lparr>Name = None\<rparr>, \<lparr>Name = Some ''b''\<rparr>, \<lparr>Name = None\<rparr>]"]
  by (simp add: string_of_index.simps digit_char_def)


subsection \<open>C3: decoding one row\<close>

text \<open>
  Claim C3, as stated, promises one entry per header, in header order, for every header
  list. The result is a plain object keyed by header, so two equal headers share one
  property, written twice: the later cell wins and the object has fewer entries than
  headers. A header that is an array index is enumerated before the other keys, out of
  header order, and the header \<^verbatim>\<open>__proto__\<close> reaches the inherited setter and
  creates no entry.
\<close>

theorem rowToObject_entries_counterexample:
  "entries (rowToObject (makeRow [Some ''x'', Some ''y'']) [''a'', ''a'']) =
     [(''a'', Some ''y'')] \<and>
   length (entries (rowToObject (makeRow [Some ''x'', Some ''y'']) [''a'', ''a''])) \<noteq>
     length [''a'', ''a''] \<and>
   entries (rowToObject (makeRow [Some ''x'', Some ''y'']) [''b'', ''1'']) =
     [(''1'', Some ''y''), (''b'', Some ''x'')] \<and>
   entries (rowToObject (makeRow [Some ''x'', Some ''y'']) [''__proto__'', ''z'']) =
     [(''z'', Some ''y'')]"
  by (simp add: entries_def rowToObject_def assign_def emptyObject_def cellValue_def
      makeRow_def isArrayIndex_def is_digit_def index_value_def digit_value_def)

text \<open>
  Claim C3, amended. For every row and every header list whose names are pairwise
  distinct and none of them \<^verbatim>\<open>__proto__\<close>, \<open>rowToObject\<close> returns an object
  with exactly one entry per header, where the entry for the header at position \<open>i\<close>
  is the value of the cell at position \<open>i\<close> when the row has one and \<^verbatim>\<open>null\<close>
  otherwise; the entries are enumerated with the array-index names first, in ascending
  numeric order, and then the other names in header order, so in header order when no
  name is an array index. For every header list: the entry of a name other than
  \<^verbatim>\<open>__proto__\<close> holds the cell at the last position of that name (\<^verbatim>\<open>null\<close>
  when the row is shorter), and without \<^verbatim>\<open>__proto__\<close> there is one entry per
  distinct name; a row shorter than the headers decodes as the same row padded with
  empty cells, and cells beyond the number of headers do not change the result.
\<close>

theorem rowToObject_entries:
  "(distinct hs \<and> ''__proto__'' \<notin> set hs \<longrightarrow>
      length (entries (rowToObject row hs)) = length hs \<and>
      (\<forall>i<length hs. map_of (entries (rowToObject row hs)) (hs ! i) = Some (cellValue row i)) \<and>
      entries (rowToObject row hs) =
        sort_key (\<lambda>p. index_value (fst p))
          (filter (\<lambda>p. isArrayIndex (fst p))
            (map (\<lambda>i. (hs ! i, cellValue row i)) [0..<length hs])) @
        filter (\<lambda>p. \<not> isArrayIndex (fst p))
          (map (\<lambda>i. (hs ! i, cellValue row i)) [0..<length hs])) \<and>
   (distinct hs \<and> (\<forall>h \<in> set hs. h \<noteq> ''__proto__'' \<and> \<not> isArrayIndex h) \<longrightarrow>
      entries (rowToObject row hs) = map (\<lambda>i. (hs ! i, cellValue row i)) [0..<length hs]) \<and>
   (\<forall>i<length hs.
      hs ! i \<noteq> ''__proto__'' \<and> (\<forall>j<length hs. i < j \<longrightarrow> hs ! j \<noteq> hs ! i) \<longrightarrow>
      map_of (entries (rowToObject row hs)) (hs ! i) =
        Some (case Data row of
                None \<Rightarrow> None
              | Some cells \<Rightarrow> if i < length cells then VarCharValue (cells ! i) else None)) \<and>
   (''__proto__'' \<notin> set hs \<longrightarrow>
      length (entries (rowToObject row hs)) = card (set hs) \<and>
      fst ` set (entries (rowToObject row hs)) = set hs) \<and>
   (\<forall>cells. Data row = Some cells \<longrightarrow>
      rowToObject row hs =
      rowToObject
        (row\<lparr>Data := Some (cells @ replicate (length hs - length cells) \<lparr>VarCharValue = None\<rparr>)\<rparr>)
        hs) \<and>
   (\<forall>cells extra. length hs \<le> length cells \<longrightarrow>
      rowToObject (row\<lparr>Data := Some (cells @ extra)\<rparr>) hs =
      rowToObject (row\<lparr>Data := Some cells\<rparr>) hs)"
proof -
  let ?obj = "rowToObject row hs"
  let ?L = "map (\<lambda>i. (hs ! i, cellValue row i)) [0..<length hs]"
  have same: "map_of (entries ?obj) = map_of (props ?obj)"
    by (rule map_of_entries) (rule distinct_keys_rowToObject)
  have last_wins: "\<forall>i<length hs.
      hs ! i \<noteq> ''__proto__'' \<and> (\<forall>j<length hs. i < j \<longrightarrow> hs ! j \<noteq> hs ! i) \<longrightarrow>
      map_of (entries ?obj) (hs ! i) = Some (cellValue row i)"
    by (simp add: same map_of_props_rowToObject)
  then have general: "\<forall>i<length hs.
      hs ! i \<noteq> ''__proto__'' \<and> (\<forall>j<length hs. i < j \<longrightarrow> hs ! j \<noteq> hs ! i) \<longrightarrow>
      map_of (entries ?obj) (hs ! i) =
        Some (case Data row of
                None \<Rightarrow> None
              | Some cells \<Rightarrow> if i < length cells then VarCharValue (cells ! i) else None)"
    by (simp add: cellValue_def)
  have names: "''__proto__'' \<notin> set hs \<longrightarrow>
      length (entries ?obj) = card (set hs) \<and> fst ` set (entries ?obj) = set hs"
    by (simp add: length_entries set_entries length_props_rowToObject keys_rowToObject)
  have one_each: "distinct hs \<and> ''__proto__'' \<notin> set hs \<longrightarrow>
      length (entries ?obj) = length hs \<and>
      (\<forall>i<length hs. map_of (entries ?obj) (hs ! i) = Some (cellValue row i)) \<and>
      entries ?obj =
        sort_key (\<lambda>p. index_value (fst p)) (filter (\<lambda>p. isArrayIndex (fst p)) ?L) @
        filter (\<lambda>p. \<not> isArrayIndex (fst p)) ?L"
  proof (intro impI conjI)
    assume h: "distinct hs \<and> ''__proto__'' \<notin> set hs"
    then show "length (entries ?obj) = length hs"
      using names by (simp add: distinct_card)
    show "\<forall>i<length hs. map_of (entries ?obj) (hs ! i) = Some (cellValue row i)"
    proof (intro allI impI)
      fix i assume i: "i < length hs"
      have "hs ! i \<noteq> ''__proto__''"
        using h i by (metis nth_mem)
      moreover have "\<forall>j<length hs. i < j \<longrightarrow> hs ! j \<noteq> hs ! i"
        using h i by (auto simp: nth_eq_iff_index_eq)
      ultimately show "map_of (entries ?obj) (hs ! i) = Some (cellValue row i)"
        using last_wins i by blast
    qed
    have "props ?obj = ?L"
      using h by (intro props_rowToObject) auto
    then show "entries ?obj =
        sort_key (\<lambda>p. index_value (fst p)) (filter (\<lambda>p. isArrayIndex (fst p)) ?L) @
        filter (\<lambda>p. \<not> isArrayIndex (fst p)) ?L"
      by (simp add: entries_def)
  qed
  have ordered: "distinct hs \<and> (\<forall>h \<in> set hs. h \<noteq> ''__proto__'' \<and> \<not> isArrayIndex h) \<longrightarrow>
      entries ?obj = ?L"
    by (simp add: entries_rowToObject)
  have padded: "\<forall>cells. Data row = Some cells \<longrightarrow>
      ?obj = rowToObject
        (row\<lparr>Data := Some (cells @ replicate (length hs - length cells) \<lparr>VarCharValue = None\<rparr>)\<rparr>)
        hs"
    by (auto intro!: rowToObject_same_cells simp: cellValue_padded)
  have extra: "\<forall>cells extra. length hs \<le> length cells \<longrightarrow>
      rowToObject (row\<lparr>Data := Some (cells @ extra)\<rparr>) hs =
      rowToObject (row\<lparr>Data := Some cells\<rparr>) hs"
    by (auto intro!: rowToObject_same_cells cellValue_append)
  from one_each ordered general names padded extra show ?thesis
    by blast
qed

text \<open>
  The example of the specification: headers \<^verbatim>\<open>["a","b","c"]\<close> and a row with the
  two cells \<^verbatim>\<open>["x","y"]\<close>; and a header list with an array-index name.
\<close>

theorem rowToObject_entries_witness:
  "entries (rowToObject (makeRow [Some ''x'', Some ''y'']) [''a'', ''b'', ''c'']) =
     [(''a'', Some ''x''), (''b'', Some ''y''), (''c'', None)] \<and>
   length (entries (rowToObject (makeRow [Some ''x'', Some ''y'']) [''name'', ''2024''])) = 2 \<and>
   map_of (entries (rowToObject (makeRow [Some ''x'', Some ''y'']) [''name'', ''2024'']))
     ''2024'' = Some (Some ''y'') \<and>
   entries (rowToObject (makeRow [Some ''x'', Some ''y'']) [''name'', ''2024'']) =
     [(''2024'', Some ''y''), (''name'', Some ''x'')]"
proof -
  let ?row = "makeRow [Some ''x'', Some ''y'']"
  have ok: "distinct [''a'', ''b'', ''c''] \<and>
      (\<forall>h \<in> set [''a'', ''b'', ''c'']. h \<noteq> ''__proto__'' \<and> \<not> isArrayIndex h)"
    by (simp add: isArrayIndex_def is_digit_def)
  have "entries (rowToObject ?row [''a'', ''b'', ''c'']) =
      map (\<lambda>i. ([''a'', ''b'', ''c''] ! i, cellValue ?row i)) [0..<length [''a'', ''b'', ''c'']]"
    using rowToObject_entries [of "[''a'', ''b'', ''c'']" ?row] ok
    by blast
  then have abc: "entries (rowToObject ?row [''a'', ''b'', ''c'']) =
      [(''a'', Some ''x''), (''b'', Some ''y''), (''c'', None)]"
    by (simp add: cellValue_def makeRow_def upt_rec)
  have ok2: "distinct [''name'', ''2024''] \<and> ''__proto__'' \<notin> set [''name'', ''2024'']"
    by simp
  note inst = rowToObject_entries [of "[''name'', ''2024'']" ?row]
  from inst ok2 have len: "length (entries (rowToObject ?row [''name'', ''2024''])) =
      length [''name'', ''2024'']"
    by blast
  from inst ok2 have "\<forall>i<length [''name'', ''2024''].
      map_of (entries (rowToObject ?row [''name'', ''2024''])) ([''name'', ''2024''] ! i) =
      Some (cellValue ?row i)"
    by blast
  then have "map_of (entries (rowToObject ?row [''name'', ''2024''])) ([''name'', ''2024''] ! 1) =
      Some (cellValue ?row 1)"
    by (simp add: All_less_Suc)
  then have val: "map_of (entries (rowToObject ?row [''name'', ''2024''])) ''2024'' =
      Some (Some ''y'')"
    by (simp add: cellValue_def makeRow_def)
  from inst ok2 have "entries (rowToObject ?row [''name'', ''2024'']) =
      sort_key (\<lambda>p. index_value (fst p))
        (filter (\<lambda>p. isArrayIndex (fst p))
          (map (\<lambda>i. ([''name'', ''2024''] ! i, cellValue ?row i)) [0..<length [''name'', ''2024'']])) @
      filter (\<lambda>p. \<not> isArrayIndex (fst p))
        (map (\<lambda>i. ([''name'', ''2024''] ! i, cellValue ?row i)) [0..<length [''name'', ''2024'']])"
    by blast
  then have ord: "entries (rowToObject ?row [''name'', ''2024'']) =
      [(''2024'', Some ''y''), (''name'', Some ''x'')]"
    by (simp add: cellValue_def makeRow_def upt_rec isArrayIndex_def is_digit_def
        index_value_def digit_value_def)
  from abc len val ord show ?thesis
    by simp
qed

subsection \<open>C4: recognising a header row\<close>

text \<open>
  Claim C4. \<open>isHeaderRow\<close> holds exactly when the row has at least one cell and,
  at every position of the header list, the value of the cell there (\<^verbatim>\<open>null\<close>
  when the row has no such cell or the cell has no value) is the header itself. A row
  without cells is never a header row, not even for the empty header list.
\<close>

theorem isHeaderRow_iff:
  "(isHeaderRow row hs \<longleftrightarrow>
      (\<exists>cells. Data row = Some cells \<and> cells \<noteq> []) \<and>
      (\<forall>i<length hs. cellValue row i = Some (hs ! i))) \<and>
   \<not> isHeaderRow (row\<lparr>Data := None\<rparr>) [] \<and>
   \<not> isHeaderRow (row\<lparr>Data := Some []\<rparr>) []"
  by (auto simp: isHeaderRow_def list_all_enumerate split: option.splits)

text \<open>The three cases of the test suite: a match, a mismatch and an empty row.\<close>

theorem isHeaderRow_iff_witness:
  "isHeaderRow (makeRow [Some ''a'', Some ''b'', Some ''c'']) [''a'', ''b'', ''c''] \<and>
   \<not> isHeaderRow (makeRow [Some ''x'', Some ''y'', Some ''z'']) [''a'', ''b'', ''c''] \<and>
   \<not> isHeaderRow (makeRow []) [''a'']"
  using isHeaderRow_iff [of "makeRow [Some ''a'', Some ''b'', Some ''c'']" "[''a'', ''b'', ''c'']"]
    isHeaderRow_iff [of "makeRow [Some ''x'', Some ''y'', Some ''z'']" "[''a'', ''b'', ''c'']"]
    isHeaderRow_iff [of "makeRow []" "[''a'']"]
  by (simp add: makeRow_def cellValue_def All_less_Suc)

subsection \<open>C5: header initialisation is idempotent\<close>

text \<open>
  Claim C5. When the headers are set, \<open>initHeaders\<close> with any column list leaves the
  state as it is; so a second initialisation after one with a non-empty column list
  keeps the first headers. With the empty column list \<open>initHeaders\<close> changes
  nothing in any state: an uninitialised parser stays uninitialised.
\<close>

theorem initHeaders_idempotent:
  "(headers st \<noteq> None \<longrightarrow> initHeaders st cols = st) \<and>
   (cols \<noteq> [] \<longrightarrow>
      initHeaders (initHeaders st cols) cols' = initHeaders st cols \<and>
      getHeaders (initHeaders (initHeaders newParser cols) cols') =
        Some (headersFromMeta cols)) \<and>
   initHeaders st [] = st \<and>
   (headers st = None \<longrightarrow> getHeaders (initHeaders st []) = None)"
  by (simp add: initHeaders_def getHeaders_def newParser_def)

text \<open>The example of the specification: \<^verbatim>\<open>["id","name"]\<close>, then \<^verbatim>\<open>["x","y"]\<close>.\<close>

theorem initHeaders_idempotent_witness:
  "getHeaders (initHeaders (initHeaders newParser (makeColumnInfo [''id'', ''name'']))
     (makeColumnInfo [''x'', ''y''])) = Some [''id'', ''name''] \<and>
   getHeaders (initHeaders newParser []) = None"
proof -
  have ne: "makeColumnInfo [''id'', ''name''] \<noteq> []"
    by (simp add: makeColumnInfo_def)
  have "getHeaders (initHeaders (initHeaders newParser (makeColumnInfo [''id'', ''name'']))
      (makeColumnInfo [''x'', ''y''])) = Some (headersFromMeta (makeColumnInfo [''id'', ''name'']))"
    using initHeaders_idempotent [of newParser "makeColumnInfo [''id'', ''name'']"
        "makeColumnInfo [''x'', ''y'']"] ne
    by blast
  moreover have "headers newParser = None"
    by (simp add: newParser_def)
  then have "getHeaders (initHeaders newParser []) = None"
    using initHeaders_idempotent [of newParser "[]" "[]"]
    by blast
  ultimately show ?thesis
    by (simp add: makeColumnInfo_def headersFromMeta_def)
qed


subsection \<open>C6: absent input gives an empty result\<close>




subsection \<open>C7: transforming and filtering the parsed rows\<close>

text \<open>
  Claim C7. \<open>parseResultSetWith\<close> returns, in the order of the rows that
  \<open>parseResultSet\<close> produces for the same state and batch, the results of the
  transform that are not \<^verbatim>\<open>null\<close>, and leaves the state that \<open>parseResultSet\<close>
  leaves: one output element for each row the transform keeps, none for a row it skips.
\<close>

theorem parseResultSetWith_filter:
  "parseResultSetWith st b f =
     (filter (\<lambda>v. v \<noteq> JsNull) (map f (fst (parseResultSet st b))),
      snd (parseResultSet st b)) \<and>
   fst (parseResultSetWith st b f) =
     map f (filter (\<lambda>row. f row \<noteq> JsNull) (fst (parseResultSet st b))) \<and>
   length (fst (parseResultSetWith st b f)) =
     length (filter (\<lambda>row. f row \<noteq> JsNull) (fst (parseResultSet st b)))"
proof -
  have "parseResultSetWith st b f =
      (filter (\<lambda>v. v \<noteq> JsNull) (map f (fst (parseResultSet st b))), snd (parseResultSet st b))"
    by (simp add: prod_eq_iff fst_parseResultSetWith snd_parseResultSetWith)
  moreover have "filter (\<lambda>v. v \<noteq> JsNull) (map f (fst (parseResultSet st b))) =
      map f (filter (\<lambda>row. f row \<noteq> JsNull) (fst (parseResultSet st b)))"
    by (simp add: filter_map comp_def)
  ultimately show ?thesis
    by simp
qed

text \<open>
  The test of the suite: rows with the names \<^verbatim>\<open>Alice\<close>, \<^verbatim>\<open>Bob\<close> and the
  empty string, and a transform that skips a row without a name.
\<close>

theorem parseResultSetWith_filter_witness:
  "fst (parseResultSetWith newParser
     (Some (makeResultSet [''id'', ''name'']
        [[Some ''1'', Some ''Alice''], [Some ''2'', Some ''Bob''], [Some ''3'', Some '''']]))
     (\<lambda>row. case map_of (props row) ''name'' of
               Some (Some n) \<Rightarrow> if n = [] then JsNull else JsValue n
             | _ \<Rightarrow> JsNull)) =
   [JsValue ''Alice'', JsValue ''Bob'']"
  using parseResultSetWith_filter [of newParser
      "Some (makeResultSet [''id'', ''name'']
        [[Some ''1'', Some ''Alice''], [Some ''2'', Some ''Bob''], [Some ''3'', Some '''']])"
      "\<lambda>row. case map_of (props row) ''name'' of
               Some (Some n) \<Rightarrow> if n = [] then JsNull else JsValue n
             | _ \<Rightarrow> JsNull"]
  by (simp add: parseResultSet_def initHeaders_def newParser_def metaOf_def rawRowsOf_def
      makeResultSet_def makeColumnInfo_def makeRow_def headersFromMeta_def skipHeader_def
      isHeaderRow_def cellValue_def rowToObject_def assign_def emptyObject_def)

subsection \<open>C8: reset gives back a new parser\<close>

text \<open>
  Claim C8. After \<open>reset\<close>, from any state, the headers are \<^verbatim>\<open>null\<close> and the
  header-row-dropped flag is false: the state is the one the constructor builds. So
  every history of calls returns the same results and ends in the same state as on a
  new parser; the next parse takes its headers from the metadata of its own batch, and
  the header-row check is armed again.
\<close>

theorem reset_is_fresh:
  "reset st = newParser \<and>
   getHeaders (reset st) = None \<and>
   \<not> headerRowDropped (reset st) \<and>
   performAll (reset st) cs = performAll newParser cs \<and>
   parseResultSet (reset st) b = parseResultSet newParser b \<and>
   getHeaders (snd (parseResultSet (reset st) (Some rs))) =
     (if metaOf rs = [] then None else Some (headersFromMeta (metaOf rs)))"
proof -
  have "getHeaders (snd (parseResultSet newParser (Some rs))) =
      (if metaOf rs = [] then None else Some (headersFromMeta (metaOf rs)))"
    by (simp add: getHeaders_def headers_parseResultSet initHeaders_def newParser_def)
  moreover have "getHeaders newParser = None" "\<not> headerRowDropped newParser"
    by (simp_all add: getHeaders_def newParser_def)
  ultimately show ?thesis
    by (simp add: reset_new)
qed

text \<open>
  A parser that has parsed the test batch, header row dropped, is reset and parses a
  batch with other columns: the new header row is dropped again.
\<close>

theorem reset_is_fresh_witness:
  "parseResultSet (reset \<lparr>headers = Some [''id'', ''name''], headerRowDropped = True\<rparr>)
     (Some (makeResultSet [''x''] [[Some ''x''], [Some ''1'']])) =
   ([rowToObject (makeRow [Some ''1'']) [''x'']],
    \<lparr>headers = Some [''x''], headerRowDropped = True\<rparr>)"
  using reset_is_fresh [of "\<lparr>headers = Some [''id'', ''name''], headerRowDropped = True\<rparr>"
      "[] :: unit call list" "Some (makeResultSet [''x''] [[Some ''x''], [Some ''1'']])"]
  by (simp add: parseResultSet_def initHeaders_def newParser_def metaOf_def rawRowsOf_def
      makeResultSet_def makeColumnInfo_def makeRow_def headersFromMeta_def skipHeader_def
      isHeaderRow_def cellValue_def)

subsection \<open>C9: the stored headers are never an empty list\<close>

text \<open>
  Claim C9. The stored headers are \<^verbatim>\<open>null\<close> or a non-empty list: this holds for
  a new parser, each of \<open>initHeaders\<close>, \<open>parseResultSet\<close>,
  \<open>parseResultSetWith\<close> and \<open>reset\<close> keeps it, and so \<open>getHeaders\<close> returns no
  empty list after any history of calls on a new parser.
\<close>

theorem headers_never_empty:
  "headersInv newParser \<and>
   (headersInv st \<longrightarrow>
      headersInv (initHeaders st cols) \<and>
      headersInv (snd (parseResultSet st b)) \<and>
      headersInv (snd (parseResultSetWith st b f)) \<and>
      headersInv (reset st) \<and>
      headersInv (snd (perform st c))) \<and>
   headersInv (snd (performAll newParser cs)) \<and>
   getHeaders (snd (performAll newParser cs)) \<noteq> Some []"
proof -
  have new: "headersInv newParser"
    by (simp add: headersInv_def newParser_def)
  then have reach: "headersInv (snd (performAll newParser cs))"
    by (rule performAll_inv)
  then have "getHeaders (snd (performAll newParser cs)) \<noteq> Some []"
    by (simp add: headersInv_def getHeaders_def)
  with new reach show ?thesis
    by (simp add: initHeaders_inv parseResultSet_inv snd_parseResultSetWith reset_inv
        perform_inv)
qed

text \<open>
  On a new parser: an initialisation with no columns, then a batch without metadata,
  then a batch with one column.
\<close>

theorem headers_never_empty_witness:
  "headersInv newParser \<and>
   getHeaders (initHeaders newParser []) = None \<and>
   getHeaders (snd (performAll newParser
     [CallInitHeaders [], CallParse (Some \<lparr>Rows = None, ResultSetMetadata = None\<rparr>),
      CallParse (Some (makeResultSet [''a''] [])) :: unit call])) = Some [''a'']"
proof -
  have new: "headersInv newParser"
    using headers_never_empty [of newParser "[]" None undefined "CallReset :: unit call" "[]"]
    by blast
  then have "headersInv (initHeaders newParser [])"
    using headers_never_empty [of newParser "[]" None undefined "CallReset :: unit call" "[]"]
    by blast
  then have "getHeaders (initHeaders newParser []) = None"
    by (simp add: initHeaders_def newParser_def getHeaders_def)
  moreover have "getHeaders (snd (performAll newParser
     [CallInitHeaders [], CallParse (Some \<lparr>Rows = None, ResultSetMetadata = None\<rparr>),
      CallParse (Some (makeResultSet [''a''] [])) :: unit call])) = Some [''a'']"
    by (simp add: getHeaders_def headers_parseResultSet split_beta initHeaders_def newParser_def
        metaOf_def makeResultSet_def makeColumnInfo_def headersFromMeta_def)
  ultimately show ?thesis
    using new by blast
qed

subsection \<open>C10: only \<^verbatim>\<open>null\<close> is the skip marker\<close>

text \<open>
  Claim C10. The results of \<open>parseResultSetWith\<close> never contain \<^verbatim>\<open>null\<close>, and
  nothing else is filtered: every transform result other than \<^verbatim>\<open>null\<close> is in
  the output, \<^verbatim>\<open>undefined\<close> appears in the output once for each row the
  transform maps to it, and a transform that returns \<^verbatim>\<open>undefined\<close> for every
  row yields one \<^verbatim>\<open>undefined\<close> per row.
\<close>

theorem only_null_is_skipped:
  "JsNull \<notin> set (fst (parseResultSetWith st b f)) \<and>
   (\<forall>row \<in> set (fst (parseResultSet st b)).
      f row \<noteq> JsNull \<longrightarrow> f row \<in> set (fst (parseResultSetWith st b f))) \<and>
   length (filter (\<lambda>v. v = JsUndefined) (fst (parseResultSetWith st b f))) =
     length (filter (\<lambda>row. f row = JsUndefined) (fst (parseResultSet st b))) \<and>
   ((\<forall>row \<in> set (fst (parseResultSet st b)). f row = JsUndefined) \<longrightarrow>
      fst (parseResultSetWith st b f) =
        replicate (length (fst (parseResultSet st b))) JsUndefined)"
proof -
  let ?rows = "fst (parseResultSet st b)"
  let ?out = "fst (parseResultSetWith st b f)"
  have out: "?out = filter (\<lambda>v. v \<noteq> JsNull) (map f ?rows)"
    by (rule fst_parseResultSetWith)
  have no_null: "JsNull \<notin> set ?out"
    by (simp add: out)
  have kept: "\<forall>row \<in> set ?rows. f row \<noteq> JsNull \<longrightarrow> f row \<in> set ?out"
    by (auto simp: out)
  have "filter (\<lambda>v. v = JsUndefined) (filter (\<lambda>v. v \<noteq> JsNull) (map f ?rows)) =
      map f (filter (\<lambda>row. f row = JsUndefined) ?rows)"
    by (rule filter_undefined_kept)
  then have count: "length (filter (\<lambda>v. v = JsUndefined) ?out) =
      length (filter (\<lambda>row. f row = JsUndefined) ?rows)"
    by (simp add: out)
  have undef: "(\<forall>row \<in> set ?rows. f row = JsUndefined) \<longrightarrow>
      ?out = replicate (length ?rows) JsUndefined"
    unfolding out using filter_all_undefined [of ?rows f] by blast
  from no_null kept count undef show ?thesis by blast
qed

text \<open>Two data rows and a transform that returns \<^verbatim>\<open>undefined\<close> for both.\<close>

theorem only_null_is_skipped_witness:
  "fst (parseResultSetWith newParser
     (Some (makeResultSet [''id''] [[Some ''1''], [Some ''2'']]))
     (\<lambda>row. JsUndefined :: unit jsResult)) = [JsUndefined, JsUndefined]"
proof -
  let ?b = "Some (makeResultSet [''id''] [[Some ''1''], [Some ''2'']])"
  have rows: "length (fst (parseResultSet newParser ?b)) = 2"
    by (simp add: parseResultSet_def initHeaders_def newParser_def metaOf_def rawRowsOf_def
        makeResultSet_def makeColumnInfo_def makeRow_def headersFromMeta_def skipHeader_def
        isHeaderRow_def cellValue_def)
  have "fst (parseResultSetWith newParser ?b (\<lambda>row. JsUndefined :: unit jsResult)) =
      replicate (length (fst (parseResultSet newParser ?b))) JsUndefined"
    using only_null_is_skipped [of newParser ?b "\<lambda>row. JsUndefined :: unit jsResult"]
    by blast
  then show ?thesis
    by (simp add: rows numeral_2_eq_2)
qed


end
